theory Spec2Isabelle
  imports Main
begin

section \<open>Python strings\<close>

text \<open>
  A Python \<open>str\<close> is a sequence of code points. The model uses \<^typ>\<open>string\<close>, whose
  characters are the code points U+0000 to U+00FF; the library predicates below are
  the Python ones restricted to that range.
\<close>

text \<open>The decimal digits among the code points of the model: 0 to 9.\<close>

definition is_decimal :: "char \<Rightarrow> bool" where
  "is_decimal c = (c \<in> set ''0123456789'')"

text \<open>
  \<open>str.isdigit\<close> also accepts the superscript digits U+00B2, U+00B3 and U+00B9,
  which \<open>int\<close> refuses.
\<close>

definition isdigit_char :: "char \<Rightarrow> bool" where
  "isdigit_char c = (is_decimal c \<or> c \<in> {CHR 0xB2, CHR 0xB3, CHR 0xB9})"

definition isdigit :: "string \<Rightarrow> bool" where
  "isdigit s = (s \<noteq> [] \<and> list_all isdigit_char s)"

definition isspace_char :: "char \<Rightarrow> bool" where
  "isspace_char c = (c \<in> {CHR 0x09, CHR 0x0A, CHR 0x0B, CHR 0x0C, CHR 0x0D,
     CHR 0x1C, CHR 0x1D, CHR 0x1E, CHR 0x1F, CHR 0x20, CHR 0x85, CHR 0xA0})"

text \<open>\<open>s.strip()\<close>\<close>

definition strip :: "string \<Rightarrow> string" where
  "strip s = rev (dropWhile isspace_char (rev (dropWhile isspace_char s)))"

text \<open>\<open>s.strip(chars)\<close>\<close>

definition strip_chars :: "string \<Rightarrow> string \<Rightarrow> string" where
  "strip_chars chars s =
     rev (dropWhile (\<lambda>c. c \<in> set chars) (rev (dropWhile (\<lambda>c. c \<in> set chars) s)))"

text \<open>
  The letters that \<open>str.lower\<close> changes, each above its lower-case form: the ASCII
  capitals, and the Latin-1 capitals U+00C0 to U+00DE without the sign U+00D7.
\<close>

definition upper_letters :: "string" where
  "upper_letters = ''ABCDEFGHIJKLMNOPQRSTUVWXYZ'' @
       [CHR 0xC0, CHR 0xC1, CHR 0xC2, CHR 0xC3, CHR 0xC4, CHR 0xC5, CHR 0xC6, CHR 0xC7,
        CHR 0xC8, CHR 0xC9, CHR 0xCA, CHR 0xCB, CHR 0xCC, CHR 0xCD, CHR 0xCE, CHR 0xCF,
        CHR 0xD0, CHR 0xD1, CHR 0xD2, CHR 0xD3, CHR 0xD4, CHR 0xD5, CHR 0xD6, CHR 0xD8,
        CHR 0xD9, CHR 0xDA, CHR 0xDB, CHR 0xDC, CHR 0xDD, CHR 0xDE]"

definition lower_letters :: "string" where
  "lower_letters = ''abcdefghijklmnopqrstuvwxyz'' @
       [CHR 0xE0, CHR 0xE1, CHR 0xE2, CHR 0xE3, CHR 0xE4, CHR 0xE5, CHR 0xE6, CHR 0xE7,
        CHR 0xE8, CHR 0xE9, CHR 0xEA, CHR 0xEB, CHR 0xEC, CHR 0xED, CHR 0xEE, CHR 0xEF,
        CHR 0xF0, CHR 0xF1, CHR 0xF2, CHR 0xF3, CHR 0xF4, CHR 0xF5, CHR 0xF6, CHR 0xF8,
        CHR 0xF9, CHR 0xFA, CHR 0xFB, CHR 0xFC, CHR 0xFD, CHR 0xFE]"

definition lower_char :: "char \<Rightarrow> char" where
  "lower_char c =
     (case map_of (zip upper_letters lower_letters) c of Some l \<Rightarrow> l | None \<Rightarrow> c)"

text \<open>\<open>s.lower()\<close>\<close>

definition lower :: "string \<Rightarrow> string" where
  "lower s = map lower_char s"

text \<open>\<open>s.startswith(p)\<close>\<close>

fun startswith :: "string \<Rightarrow> string \<Rightarrow> bool" where
  "startswith s [] = True"
| "startswith [] (p # ps) = False"
| "startswith (c # cs) (p # ps) = (c = p \<and> startswith cs ps)"

text \<open>\<open>s.endswith(p)\<close>\<close>

definition endswith :: "string \<Rightarrow> string \<Rightarrow> bool" where
  "endswith s p = startswith (rev s) (rev p)"

text \<open>\<open>sub in s\<close>\<close>

fun contains :: "string \<Rightarrow> string \<Rightarrow> bool" where
  "contains [] sub = (sub = [])"
| "contains (c # cs) sub = (startswith (c # cs) sub \<or> contains cs sub)"

text \<open>The number of positions of \<open>s\<close> at which \<open>sub\<close> occurs.\<close>

fun occurrences :: "string \<Rightarrow> string \<Rightarrow> nat" where
  "occurrences [] sub = (if sub = [] then 1 else 0)"
| "occurrences (c # cs) sub =
     (if startswith (c # cs) sub then 1 else 0) + occurrences cs sub"

definition is_linebreak :: "char \<Rightarrow> bool" where
  "is_linebreak c = (c \<in> {CHR 0x0A, CHR 0x0B, CHR 0x0C, CHR 0x0D,
     CHR 0x1C, CHR 0x1D, CHR 0x1E, CHR 0x85})"

text \<open>
  \<open>s.splitlines()\<close>: the text is cut at every line boundary, \<open>\r\n\<close> counting as
  one, and a boundary at the very end opens no further line. The first argument is
  the line read so far, reversed.
\<close>

fun splitlines_from :: "string \<Rightarrow> string \<Rightarrow> string list" where
  "splitlines_from cur [] = (if cur = [] then [] else [rev cur])"
| "splitlines_from cur [c] =
     (if is_linebreak c then [rev cur] else [rev (c # cur)])"
| "splitlines_from cur (c # d # cs) =
     (if c = CHR 0x0D \<and> d = CHR 0x0A then rev cur # splitlines_from [] cs
      else if is_linebreak c then rev cur # splitlines_from [] (d # cs)
      else splitlines_from (c # cur) (d # cs))"

definition splitlines :: "string \<Rightarrow> string list" where
  "splitlines s = splitlines_from [] s"

section \<open>Exceptions and files\<close>

datatype py_error =
  OSError | UnicodeDecodeError | ValueError | KeyError | EOFError
  | CalledProcessError | KeyboardInterrupt

text \<open>
  What the program can observe of a regular file it reads as UTF-8 text: the path is
  no file, the file cannot be opened, its bytes are no UTF-8, or it has a text.
\<close>

datatype file_state = Missing | Unreadable | Undecodable | Contents string

text \<open>\<open>Path(p).is_file()\<close>\<close>

definition is_file :: "file_state \<Rightarrow> bool" where
  "is_file f = (f \<noteq> Missing)"

text \<open>
  \<open>open(p, encoding="utf-8").read()\<close> and \<open>Path(p).read_text(encoding="utf-8")\<close>:
  a missing or unreadable file raises an \<open>OSError\<close>, undecodable bytes a
  \<open>UnicodeDecodeError\<close>, which is a \<open>ValueError\<close> and no \<open>OSError\<close>.
\<close>

definition read_text :: "file_state \<Rightarrow> py_error + string" where
  "read_text f =
     (case f of
        Missing \<Rightarrow> Inl OSError
      | Unreadable \<Rightarrow> Inl OSError
      | Undecodable \<Rightarrow> Inl UnicodeDecodeError
      | Contents s \<Rightarrow> Inr s)"

section \<open>Environment detection\<close>

text \<open>
  How a \<open>try\<close> block with \<open>except OSError: pass\<close> ends: it returns from the
  function, it lets an exception through, or control goes on after the block.
\<close>

datatype 'a flow = Return 'a | Raise py_error | Pass

text \<open>
  The \<open>try\<close> block of \<open>detect_environment\<close> (lines 125 to 136). Every \<open>OSError\<close>
  inside it is swallowed, also the one of reading the release file.
\<close>

definition wsl_check :: "file_state \<Rightarrow> file_state \<Rightarrow> string flow" where
  "wsl_check proc_version os_release =
     (case read_text proc_version of
        Inl e \<Rightarrow> (if e = OSError then Pass else Raise e)
      | Inr content \<Rightarrow>
          (let ver = lower content
           in if contains ver ''microsoft'' \<or> contains ver ''wsl'' then
                (if is_file os_release then
                   (case read_text os_release of
                      Inl e \<Rightarrow> (if e = OSError then Pass else Raise e)
                    | Inr release \<Rightarrow>
                        (let data = lower release
                         in if contains data ''ubuntu'' then Return ''wsl_ubuntu''
                            else Return ''other''))
                 else Return ''other'')
              else Pass))"

text \<open>Lines 138 to 144, outside the \<open>try\<close> block.\<close>

definition regular_linux :: "file_state \<Rightarrow> py_error + string" where
  "regular_linux os_release =
     (if is_file os_release then
        (case read_text os_release of
           Inl e \<Rightarrow> Inl e
         | Inr content \<Rightarrow>
             (let data = lower content
              in if contains data ''ubuntu'' then Inr ''ubuntu'' else Inr ''other''))
      else Inr ''other'')"

text \<open>
  \<open>detect_environment\<close>, as a function of \<open>platform.system()\<close> and of the two files
  \<open>/proc/version\<close> and \<open>/etc/os-release\<close>.
\<close>

definition detect_environment :: "string \<Rightarrow> file_state \<Rightarrow> file_state \<Rightarrow> py_error + string" where
  "detect_environment platform_system proc_version os_release =
     (let system = lower platform_system
      in if system = ''darwin'' then Inr ''macos''
         else if system = ''windows'' then Inr ''windows''
         else if system = ''linux'' then
           (case wsl_check proc_version os_release of
              Return r \<Rightarrow> Inr r
            | Raise e \<Rightarrow> Inl e
            | Pass \<Rightarrow> regular_linux os_release)
         else Inr ''other'')"

section \<open>The version pattern\<close>

text \<open>
  The regular expressions that the pattern \<open>\d+\.\d+\.\d+\<close> is built from: a literal
  character, a character class, sequence and repetition, with the two constants that
  the derivatives need. The type of the characters is left open.
\<close>

datatype 'c rexp =
  NoMatch | Eps | Lit 'c | Class "'c \<Rightarrow> bool" | Seq "'c rexp" "'c rexp" | Star "'c rexp"

text \<open>\<open>r+\<close>\<close>

definition Many1 :: "'c rexp \<Rightarrow> 'c rexp" where
  "Many1 r = Seq r (Star r)"

fun nullable :: "'c rexp \<Rightarrow> bool" where
  "nullable NoMatch = False"
| "nullable Eps = True"
| "nullable (Lit c) = False"
| "nullable (Class D) = False"
| "nullable (Seq r s) = (nullable r \<and> nullable s)"
| "nullable (Star r) = True"

text \<open>
  The derivative of an expression by a character, as the list of its alternatives
  (\<open>r|s\<close> only arises in derivatives, so it is kept out of the syntax).
\<close>

fun deriv :: "'c \<Rightarrow> 'c rexp \<Rightarrow> 'c rexp list" where
  "deriv c NoMatch = []"
| "deriv c Eps = []"
| "deriv c (Lit d) = (if c = d then [Eps] else [])"
| "deriv c (Class D) = (if D c then [Eps] else [])"
| "deriv c (Seq r s) =
     map (\<lambda>r'. Seq r' s) (deriv c r) @ (if nullable r then deriv c s else [])"
| "deriv c (Star r) = map (\<lambda>r'. Seq r' (Star r)) (deriv c r)"

text \<open>\<open>re.fullmatch\<close> for a list of alternative expressions.\<close>

fun fullmatch_any :: "'c rexp list \<Rightarrow> 'c list \<Rightarrow> bool" where
  "fullmatch_any rs [] = list_ex nullable rs"
| "fullmatch_any rs (c # cs) = fullmatch_any (concat (map (deriv c) rs)) cs"

text \<open>\<open>re.fullmatch(r, s)\<close> as a truth value.\<close>

definition fullmatch :: "'c rexp \<Rightarrow> 'c list \<Rightarrow> bool" where
  "fullmatch r s = fullmatch_any [r] s"

text \<open>
  The pattern \<open>\d+\.\d+\.\d+\<close> of lines 416 and 451, over a class of digits and the
  character of the dot.
\<close>

definition version_pattern :: "('c \<Rightarrow> bool) \<Rightarrow> 'c \<Rightarrow> 'c rexp" where
  "version_pattern digit dot =
     Seq (Many1 (Class digit)) (Seq (Lit dot)
       (Seq (Many1 (Class digit)) (Seq (Lit dot) (Many1 (Class digit)))))"

text \<open>
  The pattern is a \<open>str\<close> pattern without flags, so \<open>\d\<close> is the class of all decimal
  digits of Unicode (general category \<open>Nd\<close>), not of 0 to 9 alone. The matcher is
  therefore given on code points. The table lists the ranges of the decimal digits of
  Unicode 14.0, the database of Python 3.11: 62 ranges, 660 code points.
\<close>

type_synonym code_point = int

definition decimal_ranges :: "(code_point \<times> code_point) list" where
  "decimal_ranges =
     [(0x30, 0x39), (0x660, 0x669), (0x6F0, 0x6F9), (0x7C0, 0x7C9), (0x966, 0x96F),
      (0x9E6, 0x9EF), (0xA66, 0xA6F), (0xAE6, 0xAEF), (0xB66, 0xB6F), (0xBE6, 0xBEF),
      (0xC66, 0xC6F), (0xCE6, 0xCEF), (0xD66, 0xD6F), (0xDE6, 0xDEF), (0xE50, 0xE59),
      (0xED0, 0xED9), (0xF20, 0xF29), (0x1040, 0x1049), (0x1090, 0x1099), (0x17E0, 0x17E9),
      (0x1810, 0x1819), (0x1946, 0x194F), (0x19D0, 0x19D9), (0x1A80, 0x1A89),
      (0x1A90, 0x1A99), (0x1B50, 0x1B59), (0x1BB0, 0x1BB9), (0x1C40, 0x1C49),
      (0x1C50, 0x1C59), (0xA620, 0xA629), (0xA8D0, 0xA8D9), (0xA900, 0xA909),
      (0xA9D0, 0xA9D9), (0xA9F0, 0xA9F9), (0xAA50, 0xAA59), (0xABF0, 0xABF9),
      (0xFF10, 0xFF19), (0x104A0, 0x104A9), (0x10D30, 0x10D39), (0x11066, 0x1106F),
      (0x110F0, 0x110F9), (0x11136, 0x1113F), (0x111D0, 0x111D9), (0x112F0, 0x112F9),
      (0x11450, 0x11459), (0x114D0, 0x114D9), (0x11650, 0x11659), (0x116C0, 0x116C9),
      (0x11730, 0x11739), (0x118E0, 0x118E9), (0x11950, 0x11959), (0x11C50, 0x11C59),
      (0x11D50, 0x11D59), (0x11DA0, 0x11DA9), (0x16A60, 0x16A69), (0x16AC0, 0x16AC9),
      (0x16B50, 0x16B59), (0x1D7CE, 0x1D7FF), (0x1E140, 0x1E149), (0x1E2F0, 0x1E2F9),
      (0x1E950, 0x1E959), (0x1FBF0, 0x1FBF9)]"

definition re_digit :: "code_point \<Rightarrow> bool" where
  "re_digit c = list_ex (\<lambda>(lo, hi). lo \<le> c \<and> c \<le> hi) decimal_ranges"

text \<open>\<open>re.fullmatch(r"\d+\.\d+\.\d+", v)\<close> on the code points of \<open>v\<close>; the dot is U+002E.\<close>

definition version_fullmatch :: "code_point list \<Rightarrow> bool" where
  "version_fullmatch v = fullmatch (version_pattern re_digit 0x2E) v"

text \<open>The same test on a text of the model, through its code points.\<close>

definition version_match :: "string \<Rightarrow> bool" where
  "version_match s = version_fullmatch (map of_char s)"

text \<open>
  The version identifier in the words of the specification: a dotted triple of
  non-negative integers. \<open>dotted_triple_of\<close> leaves open which characters write a
  number; \<open>dotted_triple\<close> takes the digits 0 to 9.
\<close>

definition numeral_of :: "('c \<Rightarrow> bool) \<Rightarrow> 'c list \<Rightarrow> bool" where
  "numeral_of digit s = (s \<noteq> [] \<and> list_all digit s)"

definition dotted_triple_of :: "('c \<Rightarrow> bool) \<Rightarrow> 'c \<Rightarrow> 'c list \<Rightarrow> bool" where
  "dotted_triple_of digit dot s =
     (\<exists>a b c. s = a @ [dot] @ b @ [dot] @ c \<and>
        numeral_of digit a \<and> numeral_of digit b \<and> numeral_of digit c)"

definition ascii_digit :: "code_point \<Rightarrow> bool" where
  "ascii_digit c = (0x30 \<le> c \<and> c \<le> 0x39)"

definition dotted_triple :: "code_point list \<Rightarrow> bool" where
  "dotted_triple s = dotted_triple_of ascii_digit 0x2E s"

text \<open>The language of an expression, to state what \<open>fullmatch\<close> decides.\<close>

inductive_set star :: "'c list set \<Rightarrow> 'c list set" for A :: "'c list set" where
  star_empty: "[] \<in> star A"
| star_more: "u \<in> A \<Longrightarrow> v \<in> star A \<Longrightarrow> u @ v \<in> star A"

fun lang :: "'c rexp \<Rightarrow> 'c list set" where
  "lang NoMatch = {}"
| "lang Eps = {[]}"
| "lang (Lit c) = {[c]}"
| "lang (Class D) = {[c] | c. D c}"
| "lang (Seq r s) = {u @ v | u v. u \<in> lang r \<and> v \<in> lang s}"
| "lang (Star r) = star (lang r)"

section \<open>Standard input and external commands\<close>

text \<open>
  Standard input is the list of what is still to come at the prompts: a line, or the
  interrupt key. \<open>input()\<close> returns the line, raises \<open>KeyboardInterrupt\<close> at the
  interrupt, and raises \<open>EOFError\<close> when nothing is left.
\<close>

datatype keyboard = Line string | CtrlC

type_synonym stdin = "keyboard list"

text \<open>
  \<open>ask_yes_no(prompt, default)\<close>. The prompt is only printed, so the model leaves it
  out; the result comes with the input left unread.
\<close>

fun ask_yes_no :: "bool option \<Rightarrow> stdin \<Rightarrow> (py_error + bool) \<times> stdin" where
  "ask_yes_no dflt [] = (Inl EOFError, [])"
| "ask_yes_no dflt (CtrlC # rest) = (Inl KeyboardInterrupt, rest)"
| "ask_yes_no dflt (Line line # rest) =
     (let ans = lower (strip line)
      in case (if ans = [] then dflt else None) of
           Some d \<Rightarrow> (Inr d, rest)
         | None \<Rightarrow>
             if ans \<in> {''y'', ''yes''} then (Inr True, rest)
             else if ans \<in> {''n'', ''no''} then (Inr False, rest)
             else ask_yes_no dflt rest)"

text \<open>
  What running an external command comes to: the child exits with a return code and
  its standard output, or \<open>subprocess.run\<close> raises before or while it runs.
\<close>

datatype proc = Exited nat string | Broke py_error

text \<open>
  The host is the table of the commands it can run, each argument list with what
  happens when it is run; a command that is not in the table cannot be started
  (\<open>FileNotFoundError\<close>, an \<open>OSError\<close>).
\<close>

type_synonym host = "(string list \<times> proc) list"

definition run :: "host \<Rightarrow> string list \<Rightarrow> proc" where
  "run sh argv = (case map_of sh argv of None \<Rightarrow> Broke OSError | Some p \<Rightarrow> p)"

text \<open>
  \<open>run_cmd(cmd, check=..., capture_output=True)\<close>: the captured standard output, or
  \<open>CalledProcessError\<close> for a non-zero return code under \<open>check\<close>.
\<close>

definition run_cmd :: "bool \<Rightarrow> proc \<Rightarrow> py_error + string" where
  "run_cmd check p =
     (case p of
        Broke e \<Rightarrow> Inl e
      | Exited code out \<Rightarrow> (if check \<and> code \<noteq> 0 then Inl CalledProcessError else Inr out))"

section \<open>Version selection\<close>

text \<open>\<open>list_available_versions\<close>: a failing listing gives the empty list.\<close>

definition list_available_versions :: "host \<Rightarrow> py_error + string list" where
  "list_available_versions sh =
     (case run_cmd True (run sh [''pyenv'', ''install'', ''--list'']) of
        Inl e \<Rightarrow> (if e = CalledProcessError then Inr [] else Inl e)
      | Inr out \<Rightarrow> Inr (filter version_match (map strip (splitlines out))))"

text \<open>\<open>versions[-15:]\<close>\<close>

definition last15 :: "'a list \<Rightarrow> 'a list" where
  "last15 xs = drop (length xs - 15) xs"

definition digit_value :: "char \<Rightarrow> nat" where
  "digit_value c = length (takeWhile (\<lambda>d. d \<noteq> c) ''0123456789'')"

text \<open>
  \<open>int(s)\<close> on a text that \<open>str.isdigit\<close> accepts: the number written, or
  \<open>ValueError\<close> when a character is no decimal digit.
\<close>

definition py_int :: "string \<Rightarrow> py_error + nat" where
  "py_int s =
     (if s \<noteq> [] \<and> list_all is_decimal s
      then Inr (foldl (\<lambda>n c. 10 * n + digit_value c) 0 s)
      else Inl ValueError)"

fun str_of_nat :: "nat \<Rightarrow> string" where
  "str_of_nat n =
     (if n < 10 then [''0123456789'' ! n]
      else str_of_nat (n div 10) @ [''0123456789'' ! (n mod 10)])"

text \<open>The line \<open>f"  {i:2d}) {v}"\<close> of the menu.\<close>

definition menu_line :: "nat \<Rightarrow> string \<Rightarrow> string" where
  "menu_line i v =
     ''  '' @ replicate (2 - length (str_of_nat i)) CHR '' '' @ str_of_nat i @ '') '' @ v"

text \<open>The lines printed by the loop over \<open>enumerate(latest, start=1)\<close>.\<close>

definition menu_lines :: "string list \<Rightarrow> string list" where
  "menu_lines latest = map (\<lambda>(i, v). menu_line i v) (zip [1 ..< Suc (length latest)] latest)"

text \<open>The input that \<open>ask_yes_no\<close> leaves is never longer than the input it was given.\<close>

lemma ask_yes_no_shorter: "ask_yes_no dflt ins = (r, rest) \<Longrightarrow> length rest \<le> length ins"
proof (induction dflt ins rule: ask_yes_no.induct)
  case (3 dflt line rest')
  then show ?case
    by (fastforce simp add: Let_def split: option.splits if_splits)
qed auto

text \<open>
  The \<open>while True\<close> loop of \<open>prompt_for_version\<close> (lines 437 to 460), over the full
  list \<open>versions\<close> and the displayed slice \<open>latest\<close>.
\<close>

function choice_loop :: "string list \<Rightarrow> string list \<Rightarrow> stdin \<Rightarrow> (py_error + string option) \<times> stdin" where
  "choice_loop versions latest [] = (Inl EOFError, [])"
| "choice_loop versions latest (CtrlC # rest) = (Inl KeyboardInterrupt, rest)"
| "choice_loop versions latest (Line line # rest) =
     (let choice = strip line
      in if choice = [] then choice_loop versions latest rest
         else if lower choice \<in> {''q'', ''quit'', ''exit''} then (Inr None, rest)
         else if isdigit choice then
           (case py_int choice of
              Inl e \<Rightarrow> (Inl e, rest)
            | Inr n \<Rightarrow>
                (let idx = int n - 1
                 in if 0 \<le> idx \<and> idx < int (length latest)
                    then (Inr (Some (latest ! nat idx)), rest)
                    else choice_loop versions latest rest))
         else if version_match choice then
           (if choice \<notin> set versions then
              (case ask_yes_no (Some True) rest of
                 (Inl e, rest') \<Rightarrow> (Inl e, rest')
               | (Inr True, rest') \<Rightarrow> (Inr (Some choice), rest')
               | (Inr False, rest') \<Rightarrow> choice_loop versions latest rest')
            else (Inr (Some choice), rest))
         else choice_loop versions latest rest)"
  by pat_completeness auto
termination
  by (relation "measure (\<lambda>(versions, latest, ins). length ins)")
     (auto dest: ask_yes_no_shorter [OF sym])

text \<open>
  \<open>prompt_for_version\<close>: the selection, the input left unread, and the menu lines that
  were printed (the other messages are left out).
\<close>

definition prompt_for_version ::
  "host \<Rightarrow> stdin \<Rightarrow> (py_error + string option) \<times> stdin \<times> string list" where
  "prompt_for_version sh ins =
     (case list_available_versions sh of
        Inl e \<Rightarrow> (Inl e, ins, [])
      | Inr versions \<Rightarrow>
          if versions = [] then (Inr None, ins, [])
          else (let latest = last15 versions;
                    (r, rest) = choice_loop versions latest ins
                in (r, rest, menu_lines latest)))"

section \<open>Version installation\<close>

text \<open>
  \<open>ensure_version_installed\<close>: the result, and the commands that were run, in order.
\<close>

definition ensure_version_installed :: "string \<Rightarrow> host \<Rightarrow> (py_error + bool) \<times> string list list" where
  "ensure_version_installed version sh =
     (let listing = [''pyenv'', ''versions'', ''--bare''];
          install = [''pyenv'', ''install'', version]
      in case (case run_cmd True (run sh listing) of
                 Inl e \<Rightarrow> (if e = CalledProcessError then Inr [] else Inl e)
               | Inr out \<Rightarrow> Inr out) of
           Inl e \<Rightarrow> (Inl e, [listing])
         | Inr out \<Rightarrow>
             (let installed = set (filter (\<lambda>line. line \<noteq> []) (map strip (splitlines out)))
              in if version \<in> installed then (Inr True, [listing])
                 else (case run_cmd True (run sh install) of
                         Inl e \<Rightarrow> (if e = CalledProcessError then (Inr False, [listing, install])
                                   else (Inl e, [listing, install]))
                       | Inr out' \<Rightarrow> (Inr True, [listing, install]))))"


section \<open>The main flow\<close>




section \<open>The environment mapping\<close>

text \<open>
  A Python \<open>dict\<close> is an object that is passed by reference. The store holds the
  mappings that exist, each a list of name and value in insertion order; a reference
  is a position in the store. Position 0 holds \<open>os.environ\<close>.
\<close>

type_synonym env_dict = "(string \<times> string) list"

type_synonym store = "env_dict list"

definition environ :: "nat" where
  "environ = 0"

text \<open>\<open>d.get(k)\<close>\<close>

definition get_item :: "store \<Rightarrow> nat \<Rightarrow> string \<Rightarrow> string option" where
  "get_item st d k = map_of (st ! d) k"



text \<open>\<open>d.copy()\<close>: a new object with the same entries.\<close>

definition dict_copy :: "nat \<Rightarrow> store \<Rightarrow> nat \<times> store" where
  "dict_copy d st = (length st, st @ [st ! d])"

text \<open>
  What \<open>ensure_pyenv_in_env\<close> asks of the file system: the text of
  \<open>Path.home() / ".pyenv"\<close>, and the directories that exist.
\<close>

record paths =
  home_pyenv :: string
  directories :: "string list"






text \<open>
  Line 158: \<open>os.environ.get("PYENV_ROOT") or str(Path.home() / ".pyenv")\<close>.
\<close>

definition pyenv_root_of :: "paths \<Rightarrow> store \<Rightarrow> string" where
  "pyenv_root_of fs st =
     (case get_item st environ ''PYENV_ROOT'' of
        None \<Rightarrow> home_pyenv fs
      | Some r \<Rightarrow> if r = [] then home_pyenv fs else r)"



section \<open>The shell startup file\<close>

definition newline :: "string" where
  "newline = [CHR 0x0A]"

definition quote :: "string" where
  "quote = [CHR 0x22]"

text \<open>The snippet of lines 326 to 336, after \<open>dedent\<close>.\<close>

definition pyenv_snippet :: "string" where
  "pyenv_snippet =
     newline @ ''# pyenv configuration'' @
     newline @ ''export PYENV_ROOT='' @ quote @ ''$HOME/.pyenv'' @ quote @
     newline @ ''command -v pyenv >/dev/null || export PATH='' @ quote @ ''$PYENV_ROOT/bin:$PATH'' @ quote @
     newline @ ''eval '' @ quote @ ''$(pyenv init -)'' @ quote @
     newline @ ''if command -v pyenv-virtualenv-init >/dev/null 2>&1; then'' @
     newline @ ''  eval '' @ quote @ ''$(pyenv virtualenv-init -)'' @ quote @
     newline @ ''fi'' @
     newline"

text \<open>The files of the home directory, by name; a name without an entry is no file.\<close>

type_synonym home = "(string \<times> file_state) list"

definition file_at :: "home \<Rightarrow> string \<Rightarrow> file_state" where
  "file_at h name = (case map_of h name of None \<Rightarrow> Missing | Some f \<Rightarrow> f)"

fun write_file :: "string \<Rightarrow> file_state \<Rightarrow> home \<Rightarrow> home" where
  "write_file name f [] = [(name, f)]"
| "write_file name f (p # ps) = (if fst p = name then (name, f) # ps else p # write_file name f ps)"

text \<open>The startup file that is edited, chosen by the value of \<open>SHELL\<close>.\<close>

definition rc_name :: "string \<Rightarrow> string" where
  "rc_name shell = (if endswith shell ''zsh'' then ''.zshrc'' else ''.bashrc'')"

text \<open>
  \<open>append_to_shell_rc_if_missing(snippet)\<close>, as a function of the value of \<open>SHELL\<close>, of
  whether the file can be opened for appending, and of the home directory: the home
  directory afterwards, or the exception that is not caught.
\<close>

definition append_to_shell_rc_if_missing :: "string \<Rightarrow> bool \<Rightarrow> string \<Rightarrow> home \<Rightarrow> py_error + home" where
  "append_to_shell_rc_if_missing shell writable snippet h =
     (let rc = rc_name shell
      in case (if is_file (file_at h rc)
               then (case read_text (file_at h rc) of
                       Inl e \<Rightarrow> (if e = OSError then Return h else Raise e)
                     | Inr content \<Rightarrow>
                         (if contains content ''pyenv init'' then Return h else Pass))
               else Pass) of
           Return h' \<Rightarrow> Inr h'
         | Raise e \<Rightarrow> Inl e
         | Pass \<Rightarrow>
             (let content = (case file_at h rc of Contents c \<Rightarrow> c | _ \<Rightarrow> [])
              in if writable
                 then Inr (write_file rc
                        (Contents (content @ (if endswith content newline then [] else newline)
                                   @ newline @ strip_chars newline snippet @ newline)) h)
                 else Inr h))"

text \<open>Two runs, one after the other.\<close>

definition append_twice :: "string \<Rightarrow> bool \<Rightarrow> string \<Rightarrow> home \<Rightarrow> py_error + home" where
  "append_twice shell writable snippet h =
     (case append_to_shell_rc_if_missing shell writable snippet h of
        Inl e \<Rightarrow> Inl e
      | Inr h' \<Rightarrow> append_to_shell_rc_if_missing shell writable snippet h')"

section \<open>Properties of environment detection\<close>

lemmas lower_simps = lower_def lower_char_def upper_letters_def lower_letters_def

lemmas detect_simps =
  detect_environment_def wsl_check_def regular_linux_def read_text_def is_file_def

text \<open>
  Claim C1. On a Linux host whose two files can be read, the classification follows
  the decision policy: a release file that mentions Ubuntu gives \<open>ubuntu\<close> when
  \<open>/proc/version\<close> has no Microsoft or WSL marker and \<open>wsl_ubuntu\<close> when it has
  one; a marker in \<open>/proc/version\<close> with a release file that does not mention
  Ubuntu gives \<open>other\<close>. The markers are looked for in the lower-cased texts.
\<close>

theorem detect_environment_linux_policy:
  assumes "lower platform_system = ''linux''"
  shows "(contains (lower os_release) ''ubuntu'' \<and>
          \<not> (contains (lower proc_version) ''microsoft'' \<or> contains (lower proc_version) ''wsl'')
          \<longrightarrow> detect_environment platform_system (Contents proc_version) (Contents os_release)
                = Inr ''ubuntu'') \<and>
         ((contains (lower proc_version) ''microsoft'' \<or> contains (lower proc_version) ''wsl'') \<and>
          contains (lower os_release) ''ubuntu''
          \<longrightarrow> detect_environment platform_system (Contents proc_version) (Contents os_release)
                = Inr ''wsl_ubuntu'') \<and>
         ((contains (lower proc_version) ''microsoft'' \<or> contains (lower proc_version) ''wsl'') \<and>
          \<not> contains (lower os_release) ''ubuntu''
          \<longrightarrow> detect_environment platform_system (Contents proc_version) (Contents os_release)
                = Inr ''other'')"
  using assms by (simp add: detect_simps Let_def)

theorem detect_environment_linux_policy_witness:
  "detect_environment ''Linux'' (Contents ''Linux version 6.8.0'')
     (Contents ''NAME=Ubuntu'') = Inr ''ubuntu'' \<and>
   detect_environment ''Linux'' (Contents ''Linux 5.15 microsoft-standard-WSL2'')
     (Contents ''NAME=Ubuntu'') = Inr ''wsl_ubuntu'' \<and>
   detect_environment ''Linux'' (Contents ''Linux 5.15 microsoft-standard-WSL2'')
     (Contents ''NAME=Debian'') = Inr ''other''"
proof -
  have linux: "lower ''Linux'' = ''linux''"
    by code_simp
  have plain: "\<not> (contains (lower ''Linux version 6.8.0'') ''microsoft'' \<or>
                  contains (lower ''Linux version 6.8.0'') ''wsl'')"
    by code_simp
  have wsl: "contains (lower ''Linux 5.15 microsoft-standard-WSL2'') ''microsoft''"
    by code_simp
  have ubuntu: "contains (lower ''NAME=Ubuntu'') ''ubuntu''"
    by code_simp
  have debian: "\<not> contains (lower ''NAME=Debian'') ''ubuntu''"
    by code_simp
  show ?thesis
    using detect_environment_linux_policy [OF linux, of "''NAME=Ubuntu''" "''Linux version 6.8.0''"]
      detect_environment_linux_policy [OF linux, of "''NAME=Ubuntu''" "''Linux 5.15 microsoft-standard-WSL2''"]
      detect_environment_linux_policy [OF linux, of "''NAME=Debian''" "''Linux 5.15 microsoft-standard-WSL2''"]
      plain wsl ubuntu debian
    by blast
qed

text \<open>
  Claim C2 asks that detection never raises and that unreadable files give \<open>other\<close>.
  The \<open>try\<close> block swallows the \<open>OSError\<close> of \<open>/proc/version\<close>, but the read of
  \<open>/etc/os-release\<close> at line 140 stands outside it: a release file that exists and
  cannot be read makes \<open>detect_environment\<close> raise \<open>OSError\<close>.
\<close>

theorem detect_environment_unreadable_release_raises:
  "detect_environment ''Linux'' (Contents ''Linux version 6.8.0'') Unreadable
     = Inl OSError"
  by code_simp

text \<open>
  What does hold of claim C2: with a release file that is absent or readable,
  and a \<open>/proc/version\<close> that is absent, unreadable or readable, detection returns
  one of the five classes, and \<open>other\<close> when no marker is found.
\<close>

lemma detect_environment_total_on_decodable:
  assumes "os_release = Missing \<or> (\<exists>d. os_release = Contents d)"
    and "proc_version \<noteq> Undecodable"
  shows "\<exists>r \<in> {''macos'', ''ubuntu'', ''wsl_ubuntu'', ''windows'', ''other''}.
           detect_environment platform_system proc_version os_release = Inr r"
proof -
  have release: "regular_linux os_release = Inr ''ubuntu'' \<or> regular_linux os_release = Inr ''other''"
    using assms(1) by (auto simp add: regular_linux_def read_text_def is_file_def Let_def split: if_splits)
  have block: "wsl_check proc_version os_release \<in> {Return ''wsl_ubuntu'', Return ''other'', Pass}"
    using assms
    by (cases proc_version) (auto simp add: wsl_check_def read_text_def is_file_def Let_def split: if_splits)
  show ?thesis
    using release block by (auto simp add: detect_environment_def Let_def)
qed

lemma detect_environment_no_marker_other:
  assumes "lower platform_system = ''linux''"
    and "os_release = Missing \<or> (\<exists>d. os_release = Contents d \<and> \<not> contains (lower d) ''ubuntu'')"
    and "proc_version \<noteq> Undecodable"
  shows "detect_environment platform_system proc_version os_release = Inr ''other''"
  using assms
  by (cases proc_version) (auto simp add: detect_simps Let_def)

section \<open>Properties of the version pattern\<close>

text \<open>The derivatives decide membership in the language of the expression.\<close>

lemma nullable_lang: "nullable r \<longleftrightarrow> [] \<in> lang r"
  by (induction r) (auto intro: star.star_empty)

lemma star_Cons_elim:
  "x \<in> star A \<Longrightarrow> x = c # w \<Longrightarrow> \<exists>u v. w = u @ v \<and> c # u \<in> A \<and> v \<in> star A"
proof (induction rule: star.induct)
  case star_empty
  then show ?case by simp
next
  case (star_more u v)
  show ?case
  proof (cases u)
    case Nil
    with star_more show ?thesis by simp
  next
    case (Cons d u')
    with star_more have "w = u' @ v" "c # u' \<in> A" "v \<in> star A" by simp_all
    then show ?thesis by blast
  qed
qed

lemma star_Cons:
  "c # w \<in> star A \<longleftrightarrow> (\<exists>u v. w = u @ v \<and> c # u \<in> A \<and> v \<in> star A)"
proof
  assume "c # w \<in> star A"
  then show "\<exists>u v. w = u @ v \<and> c # u \<in> A \<and> v \<in> star A"
    by (rule star_Cons_elim) simp
next
  assume "\<exists>u v. w = u @ v \<and> c # u \<in> A \<and> v \<in> star A"
  then obtain u v where "w = u @ v" "c # u \<in> A" "v \<in> star A" by blast
  then show "c # w \<in> star A"
    using star.star_more [of "c # u" A v] by simp
qed

lemma seq_Cons:
  "c # w \<in> {u @ v | u v. u \<in> A \<and> v \<in> B} \<longleftrightarrow>
     (\<exists>u v. w = u @ v \<and> c # u \<in> A \<and> v \<in> B) \<or> ([] \<in> A \<and> c # w \<in> B)"
  by (auto simp add: Cons_eq_append_conv)

lemma deriv_lang:
  "(\<exists>r' \<in> set (deriv c r). w \<in> lang r') \<longleftrightarrow> c # w \<in> lang r"
proof (induction r arbitrary: w)
  case (Seq r s)
  have "(\<exists>r' \<in> set (deriv c (Seq r s)). w \<in> lang r') \<longleftrightarrow>
        (\<exists>r' \<in> set (deriv c r). w \<in> lang (Seq r' s)) \<or>
        (nullable r \<and> (\<exists>s' \<in> set (deriv c s). w \<in> lang s'))"
    by (auto simp add: bex_Un simp del: lang.simps)
  also have "\<dots> \<longleftrightarrow>
        (\<exists>r' \<in> set (deriv c r). \<exists>u v. w = u @ v \<and> u \<in> lang r' \<and> v \<in> lang s) \<or>
        (nullable r \<and> (\<exists>s' \<in> set (deriv c s). w \<in> lang s'))"
    by simp
  also have "\<dots> \<longleftrightarrow> (\<exists>u v. w = u @ v \<and> c # u \<in> lang r \<and> v \<in> lang s) \<or>
        ([] \<in> lang r \<and> c # w \<in> lang s)"
    unfolding Seq.IH(1) [symmetric] Seq.IH(2) [symmetric] nullable_lang [symmetric] by blast
  finally have "(\<exists>r' \<in> set (deriv c (Seq r s)). w \<in> lang r') \<longleftrightarrow>
        (\<exists>u v. w = u @ v \<and> c # u \<in> lang r \<and> v \<in> lang s) \<or> ([] \<in> lang r \<and> c # w \<in> lang s)" .
  also have "\<dots> \<longleftrightarrow> c # w \<in> lang (Seq r s)"
    unfolding lang.simps seq_Cons ..
  finally show ?case .
next
  case (Star r)
  have "(\<exists>r' \<in> set (deriv c (Star r)). w \<in> lang r') \<longleftrightarrow>
        (\<exists>r' \<in> set (deriv c r). \<exists>u v. w = u @ v \<and> u \<in> lang r' \<and> v \<in> star (lang r))"
    by auto
  also have "\<dots> \<longleftrightarrow> (\<exists>u v. w = u @ v \<and> c # u \<in> lang r \<and> v \<in> star (lang r))"
    unfolding Star.IH [symmetric] by blast
  also have "\<dots> \<longleftrightarrow> c # w \<in> lang (Star r)"
    by (simp add: star_Cons)
  finally show ?case .
qed auto

lemma fullmatch_any_lang:
  "fullmatch_any rs s \<longleftrightarrow> (\<exists>r \<in> set rs. s \<in> lang r)"
proof (induction s arbitrary: rs)
  case Nil
  show ?case by (auto simp add: list_ex_iff nullable_lang)
next
  case (Cons c cs)
  have "fullmatch_any rs (c # cs) \<longleftrightarrow> (\<exists>r \<in> set rs. \<exists>r' \<in> set (deriv c r). cs \<in> lang r')"
    by (auto simp add: Cons.IH)
  then show ?case
    by (simp add: deriv_lang)
qed

lemma fullmatch_lang: "fullmatch r s \<longleftrightarrow> s \<in> lang r"
  by (simp add: fullmatch_def fullmatch_any_lang)

text \<open>The language of the version pattern, for any class of digits.\<close>

lemma star_class: "s \<in> star (lang (Class D)) \<longleftrightarrow> list_all D s"
proof (induction s)
  case Nil
  show ?case by (simp add: star.star_empty)
next
  case (Cons c cs)
  have head: "c # u \<in> lang (Class D) \<longleftrightarrow> u = [] \<and> D c" for u
    by auto
  have "c # cs \<in> star (lang (Class D)) \<longleftrightarrow> D c \<and> cs \<in> star (lang (Class D))"
    unfolding star_Cons [of c cs] head by auto
  then show ?case
    using Cons.IH by simp
qed

lemma lang_Many1_Class: "s \<in> lang (Many1 (Class D)) \<longleftrightarrow> numeral_of D s"
proof (cases s)
  case Nil
  then show ?thesis by (simp add: Many1_def numeral_of_def)
next
  case (Cons c cs)
  have "c # cs \<in> lang (Many1 (Class D)) \<longleftrightarrow> D c \<and> cs \<in> star (lang (Class D))"
    unfolding Many1_def lang.simps(5) seq_Cons by auto
  then show ?thesis
    using Cons star_class [of cs D] by (simp add: numeral_of_def del: lang.simps)
qed

lemma lang_version_pattern:
  "s \<in> lang (version_pattern D dot) \<longleftrightarrow> dotted_triple_of D dot s"
proof -
  have "s \<in> lang (version_pattern D dot) \<longleftrightarrow>
        (\<exists>a b c. s = a @ [dot] @ b @ [dot] @ c \<and> a \<in> lang (Many1 (Class D)) \<and>
           b \<in> lang (Many1 (Class D)) \<and> c \<in> lang (Many1 (Class D)))"
    unfolding version_pattern_def lang.simps by fastforce
  then show ?thesis
    by (simp add: lang_Many1_Class dotted_triple_of_def)
qed

lemma version_fullmatch_iff: "version_fullmatch v \<longleftrightarrow> dotted_triple_of re_digit 0x2E v"
  by (simp add: version_fullmatch_def fullmatch_lang lang_version_pattern)

text \<open>A dotted triple has digits and dots only, and only its own characters count.\<close>

lemma dotted_triple_of_chars:
  "dotted_triple_of D dot s \<Longrightarrow> c \<in> set s \<Longrightarrow> D c \<or> c = dot"
  by (auto simp add: dotted_triple_of_def numeral_of_def list_all_iff)

lemma dotted_triple_of_cong:
  assumes "\<forall>c \<in> set s. D c = D' c"
  shows "dotted_triple_of D dot s = dotted_triple_of D' dot s"
proof -
  have "numeral_of D a = numeral_of D' a" if "set a \<subseteq> set s" for a
    using that assms by (auto simp add: numeral_of_def list_all_iff)
  then show ?thesis
    unfolding dotted_triple_of_def by (intro ex_cong1 conj_cong refl) auto
qed

lemma dotted_triple_of_map:
  assumes "inj f" and "\<And>c. D' (f c) = D c"
  shows "dotted_triple_of D' (f dot) (map f s) \<longleftrightarrow> dotted_triple_of D dot s"
proof
  assume "dotted_triple_of D dot s"
  then obtain a b c where "s = a @ [dot] @ b @ [dot] @ c"
    "numeral_of D a" "numeral_of D b" "numeral_of D c"
    unfolding dotted_triple_of_def by blast
  then have "map f s = map f a @ [f dot] @ map f b @ [f dot] @ map f c"
    "numeral_of D' (map f a)" "numeral_of D' (map f b)" "numeral_of D' (map f c)"
    using assms(2) by (simp_all add: numeral_of_def list_all_iff)
  then show "dotted_triple_of D' (f dot) (map f s)"
    unfolding dotted_triple_of_def by blast
next
  assume "dotted_triple_of D' (f dot) (map f s)"
  then obtain A B C where split: "map f s = A @ [f dot] @ B @ [f dot] @ C"
    and nums: "numeral_of D' A" "numeral_of D' B" "numeral_of D' C"
    unfolding dotted_triple_of_def by blast
  from split obtain a r1 where s1: "s = a @ r1" "A = map f a" "map f r1 = [f dot] @ B @ [f dot] @ C"
    by (auto simp add: map_eq_append_conv)
  from s1(3) obtain d1 r2 where s2: "r1 = d1 # r2" "f d1 = f dot" "map f r2 = B @ [f dot] @ C"
    by (auto simp add: map_eq_Cons_conv)
  from s2(3) obtain b r3 where s3: "r2 = b @ r3" "B = map f b" "map f r3 = [f dot] @ C"
    by (auto simp add: map_eq_append_conv)
  from s3(3) obtain d2 c where s4: "r3 = d2 # c" "f d2 = f dot" "C = map f c"
    by (auto simp add: map_eq_Cons_conv)
  have dots: "d1 = dot" "d2 = dot"
    using s2(2) s4(2) assms(1) by (auto dest: injD)
  have "s = a @ [dot] @ b @ [dot] @ c"
    using s1(1) s2(1) s3(1) s4(1) dots by simp
  moreover have "numeral_of D a" "numeral_of D b" "numeral_of D c"
    using nums s1(2) s3(2) s4(3) assms(2) by (simp_all add: numeral_of_def list_all_iff)
  ultimately show "dotted_triple_of D dot s"
    unfolding dotted_triple_of_def by blast
qed

text \<open>Below U+0100 the only decimal digits are 0 to 9.\<close>

lemma re_digit_below_256: "c < 0x100 \<Longrightarrow> re_digit c \<longleftrightarrow> ascii_digit c"
proof -
  assume small: "c < 0x100"
  have first: "re_digit c \<longleftrightarrow>
      ascii_digit c \<or> list_ex (\<lambda>(lo, hi). lo \<le> c \<and> c \<le> hi) (tl decimal_ranges)"
    by (simp add: re_digit_def decimal_ranges_def ascii_digit_def)
  have "\<forall>(lo, hi) \<in> set (tl decimal_ranges). 0x100 \<le> lo"
    by code_simp
  then have "\<not> list_ex (\<lambda>(lo, hi). lo \<le> c \<and> c \<le> hi) (tl decimal_ranges)"
    using small by (fastforce simp add: list_ex_iff)
  then show ?thesis
    using first by simp
qed

lemma ascii_digit_of_char: "ascii_digit (of_char c) \<longleftrightarrow> is_decimal c"
proof
  assume "is_decimal c"
  moreover have "\<forall>d \<in> set ''0123456789''. ascii_digit (of_char d)"
    by code_simp
  ultimately show "ascii_digit (of_char c)"
    by (simp add: is_decimal_def del: set_simps)
next
  assume "ascii_digit (of_char c)"
  then have "(of_char c :: int) \<in> {0x30 .. 0x39}"
    by (simp add: ascii_digit_def)
  then have "(of_char c :: int) \<in> set [0x30 .. 0x39]"
    by (simp only: set_upto)
  moreover have "\<forall>n \<in> set [0x30 .. 0x39 :: int]. char_of n \<in> set ''0123456789''"
    by code_simp
  ultimately have "char_of (of_char c :: int) \<in> set ''0123456789''"
    by blast
  then show "is_decimal c"
    by (simp add: is_decimal_def del: set_simps)
qed

lemma re_digit_of_char: "re_digit (of_char c) \<longleftrightarrow> is_decimal c"
proof -
  have "(of_char c :: int) < 0x100"
    using nat_of_char_less_256 [of c] by (simp add: of_char_def)
  then show ?thesis
    by (simp add: re_digit_below_256 ascii_digit_of_char)
qed

text \<open>On the texts of the model the pattern is the one with the digits 0 to 9.\<close>

lemma version_match_iff: "version_match s \<longleftrightarrow> dotted_triple_of is_decimal CHR ''.'' s"
proof -
  have dot: "of_char CHR ''.'' = (0x2E :: int)"
    by simp
  have "dotted_triple_of re_digit (of_char CHR ''.'') (map of_char s)
      \<longleftrightarrow> dotted_triple_of is_decimal CHR ''.'' s"
    by (rule dotted_triple_of_map) (simp_all add: inj_of_char re_digit_of_char)
  then show ?thesis
    by (simp add: version_match_def version_fullmatch_iff dot)
qed

text \<open>
  Claim C9 says that the matcher accepts exactly the dotted triples of non-negative
  integers. The class \<open>\d\<close> of a \<open>str\<close> pattern has the decimal digits of every script:
  the text of the code points U+0663, U+002E, U+0661, U+0662, U+002E, U+0664
  (3.12.4 in Arabic-Indic digits) is accepted, and it is no dotted triple of numbers
  written with 0 to 9.
\<close>

theorem version_fullmatch_unicode_counterexample:
  "version_fullmatch [0x663, 0x2E, 0x661, 0x662, 0x2E, 0x664] \<and>
   \<not> dotted_triple [0x663, 0x2E, 0x661, 0x662, 0x2E, 0x664]"
proof
  show "version_fullmatch [0x663, 0x2E, 0x661, 0x662, 0x2E, 0x664]"
    by code_simp
  have "\<not> (ascii_digit 0x663 \<or> (0x663 :: int) = 0x2E)"
    by (simp add: ascii_digit_def)
  then show "\<not> dotted_triple [0x663, 0x2E, 0x661, 0x662, 0x2E, 0x664]"
    unfolding dotted_triple_def
    using dotted_triple_of_chars [of ascii_digit "0x2E" "[0x663, 0x2E, 0x661, 0x662, 0x2E, 0x664]" "0x663"]
    by auto
qed

text \<open>
  Claim C9, amended. The matcher accepts exactly the texts made of three non-empty
  runs of decimal digits with one dot between them, a decimal digit being any
  character of the class \<open>\d\<close>; on texts whose code points are all below U+0100 these
  are exactly the dotted triples of non-negative integers written with 0 to 9. It
  accepts \<open>3.12.4\<close> and \<open>0.0.1\<close> and rejects \<open>3.12\<close>, \<open>3.12.4.5\<close> and \<open>latest\<close>.
\<close>

theorem version_fullmatch_language:
  "(version_fullmatch v \<longleftrightarrow> dotted_triple_of re_digit 0x2E v) \<and>
   (list_all (\<lambda>c. c < 0x100) v \<longrightarrow> (version_fullmatch v \<longleftrightarrow> dotted_triple v)) \<and>
   version_match ''3.12.4'' \<and> version_match ''0.0.1'' \<and>
   \<not> version_match ''3.12'' \<and> \<not> version_match ''3.12.4.5'' \<and> \<not> version_match ''latest''"
proof -
  have "version_fullmatch v \<longleftrightarrow> dotted_triple v" if "list_all (\<lambda>c. c < 0x100) v"
  proof -
    have "\<forall>c \<in> set v. re_digit c = ascii_digit c"
      using that by (simp add: list_all_iff re_digit_below_256)
    then show ?thesis
      unfolding version_fullmatch_iff dotted_triple_def by (rule dotted_triple_of_cong)
  qed
  moreover have "version_match ''3.12.4''" "version_match ''0.0.1''"
    "\<not> version_match ''3.12''" "\<not> version_match ''3.12.4.5''" "\<not> version_match ''latest''"
    by code_simp+
  ultimately show ?thesis
    using version_fullmatch_iff [of v] by blast
qed

theorem version_fullmatch_language_witness:
  "list_all (\<lambda>c. c < 0x100) [0x33, 0x2E, 0x31, 0x32, 0x2E, 0x34 :: int] \<and>
   version_fullmatch [0x33, 0x2E, 0x31, 0x32, 0x2E, 0x34] \<and>
   dotted_triple [0x33, 0x2E, 0x31, 0x32, 0x2E, 0x34]"
proof -
  have small: "list_all (\<lambda>c. c < 0x100) [0x33, 0x2E, 0x31, 0x32, 0x2E, 0x34 :: int]"
    by simp
  have accepted: "version_fullmatch [0x33, 0x2E, 0x31, 0x32, 0x2E, 0x34]"
    by code_simp
  show ?thesis
    using version_fullmatch_language [of "[0x33, 0x2E, 0x31, 0x32, 0x2E, 0x34]"] small accepted
    by blast
qed

section \<open>Properties of version selection\<close>

lemma isdigit_char_lower:
  assumes "isdigit_char x"
  shows "lower_char x = x"
proof -
  have "\<forall>c \<in> set (''0123456789'' @ [CHR 0xB2, CHR 0xB3, CHR 0xB9]). lower_char c = c"
    by code_simp
  moreover have "x \<in> set (''0123456789'' @ [CHR 0xB2, CHR 0xB3, CHR 0xB9])"
    using assms by (auto simp add: isdigit_char_def is_decimal_def)
  ultimately show ?thesis by blast
qed

lemma isdigit_lower: "isdigit s \<Longrightarrow> lower s = s"
  by (simp add: isdigit_def lower_def list_all_iff map_idI isdigit_char_lower)

lemma isdigit_not_quit: "isdigit s \<Longrightarrow> lower s \<notin> {''q'', ''quit'', ''exit''}"
proof -
  assume d: "isdigit s"
  have "\<not> isdigit ''q''" "\<not> isdigit ''quit''" "\<not> isdigit ''exit''"
    by (simp_all add: isdigit_def isdigit_char_def is_decimal_def)
  with d show ?thesis
    by (auto simp add: isdigit_lower)
qed

lemma py_int_isdigit: "py_int s = Inr n \<Longrightarrow> isdigit s"
  by (auto simp add: py_int_def isdigit_def isdigit_char_def list_all_iff split: if_splits)

lemma version_match_dot: "version_match s \<Longrightarrow> CHR ''.'' \<in> set s"
  by (auto simp add: version_match_iff dotted_triple_of_def)

lemma version_match_nonempty: "version_match s \<Longrightarrow> s \<noteq> []"
  using version_match_dot by fastforce

lemma version_match_not_digit: "version_match s \<Longrightarrow> \<not> isdigit s"
proof
  assume "version_match s" "isdigit s"
  then have "isdigit_char CHR ''.''"
    using version_match_dot [of s] by (simp add: isdigit_def list_all_iff)
  then show False
    by (simp add: isdigit_char_def is_decimal_def)
qed

lemma version_match_not_quit: "version_match s \<Longrightarrow> lower s \<notin> {''q'', ''quit'', ''exit''}"
proof -
  assume "version_match s"
  then have "lower_char CHR ''.'' \<in> set (lower s)"
    using version_match_dot [of s] by (simp add: lower_def)
  moreover have "lower_char CHR ''.'' = CHR ''.''"
    by (simp add: lower_char_def upper_letters_def lower_letters_def)
  ultimately show ?thesis by auto
qed

lemma set_last15: "set (last15 xs) \<subseteq> set xs"
  by (simp add: last15_def set_drop_subset)

lemma length_last15: "length (last15 xs) = min (length xs) 15"
  by (simp add: last15_def)

lemma last15_nth: "i < min (length xs) 15 \<Longrightarrow> last15 xs ! i = xs ! (length xs - min (length xs) 15 + i)"
  by (simp add: last15_def min_def split: if_splits)

lemma list_available_versions_match:
  "list_available_versions sh = Inr versions \<Longrightarrow> v \<in> set versions \<Longrightarrow> version_match v"
  by (auto simp add: list_available_versions_def split: sum.splits if_splits)

text \<open>One turn of the loop, for each kind of input line.\<close>

lemma choice_loop_index:
  assumes "py_int (strip line) = Inr k" and "1 \<le> k" and "k \<le> length latest"
  shows "choice_loop versions latest (Line line # rest) = (Inr (Some (latest ! (k - 1))), rest)"
proof -
  have d: "isdigit (strip line)" using assms(1) by (rule py_int_isdigit)
  then have "strip line \<noteq> []" by (simp add: isdigit_def)
  moreover have "lower (strip line) \<notin> {''q'', ''quit'', ''exit''}" using d by (rule isdigit_not_quit)
  moreover have "nat (int k - 1) = k - 1" by simp
  ultimately show ?thesis
    using assms d by (simp add: Let_def del: One_nat_def)
qed

lemma choice_loop_out_of_range:
  assumes "py_int (strip line) = Inr k" and "k = 0 \<or> length latest < k"
  shows "choice_loop versions latest (Line line # rest) = choice_loop versions latest rest"
proof -
  have d: "isdigit (strip line)" using assms(1) by (rule py_int_isdigit)
  then have "strip line \<noteq> []" by (simp add: isdigit_def)
  moreover have "lower (strip line) \<notin> {''q'', ''quit'', ''exit''}" using d by (rule isdigit_not_quit)
  ultimately show ?thesis
    using assms d by (auto simp add: Let_def)
qed

lemma choice_loop_listed:
  assumes "version_match (strip line)" and "strip line \<in> set versions"
  shows "choice_loop versions latest (Line line # rest) = (Inr (Some (strip line)), rest)"
  using assms version_match_nonempty [OF assms(1)] version_match_not_quit [OF assms(1)]
    version_match_not_digit [OF assms(1)]
  by (simp add: Let_def)

lemma choice_loop_unlisted:
  assumes "version_match (strip line)" and "strip line \<notin> set versions"
  shows "choice_loop versions latest (Line line # rest) =
     (case ask_yes_no (Some True) rest of
        (Inl e, rest') \<Rightarrow> (Inl e, rest')
      | (Inr True, rest') \<Rightarrow> (Inr (Some (strip line)), rest')
      | (Inr False, rest') \<Rightarrow> choice_loop versions latest rest')"
  using assms version_match_nonempty [OF assms(1)] version_match_not_quit [OF assms(1)]
    version_match_not_digit [OF assms(1)]
  by (simp add: Let_def)

lemma menu_entry_match:
  assumes "\<forall>v \<in> set latest. version_match v" and "0 < n" and "int n - 1 < int (length latest)"
  shows "version_match (latest ! nat (int n - 1))"
proof -
  have "nat (int n - 1) < length latest" using assms(2,3) by linarith
  then show ?thesis using assms(1) by simp
qed

lemma choice_loop_selected:
  "\<forall>v \<in> set latest. version_match v \<Longrightarrow>
   choice_loop versions latest ins = (Inr (Some v), rest) \<Longrightarrow> version_match v"
proof (induction versions latest ins rule: choice_loop.induct)
  case (3 versions latest line rest')
  then show ?case
    by (auto simp add: Let_def intro: menu_entry_match
        split: if_splits sum.splits prod.splits bool.splits)
qed simp_all

lemma prompt_for_version_selected:
  assumes "prompt_for_version sh ins = (Inr (Some v), rest, menu)"
  shows "version_match v"
proof -
  obtain versions where vs: "list_available_versions sh = Inr versions" and ne: "versions \<noteq> []"
    using assms by (auto simp add: prompt_for_version_def split: sum.splits if_splits)
  have latest: "\<forall>v \<in> set (last15 versions). version_match v"
    using list_available_versions_match [OF vs] set_last15 [of versions] by blast
  have "fst (choice_loop versions (last15 versions) ins) = Inr (Some v)"
    using assms vs ne by (simp add: prompt_for_version_def Let_def split: prod.splits)
  then show ?thesis
    using choice_loop_selected [OF latest, of versions ins v]
    by (cases "choice_loop versions (last15 versions) ins") simp
qed

lemma prompt_for_version_loop:
  assumes "list_available_versions sh = Inr versions" and "versions \<noteq> []"
  shows "prompt_for_version sh ins =
     (fst (choice_loop versions (last15 versions) ins),
      snd (choice_loop versions (last15 versions) ins), menu_lines (last15 versions))"
  using assms by (simp add: prompt_for_version_def Let_def split: prod.splits)

lemma prompt_for_version_empty:
  assumes "list_available_versions sh = Inr []"
  shows "prompt_for_version sh ins = (Inr None, ins, [])"
  using assms by (simp add: prompt_for_version_def)

lemma menu_lines_nth:
  "menu_lines latest = map (\<lambda>k. menu_line k (latest ! (k - 1))) [1 ..< Suc (length latest)]"
  by (rule nth_equalityI) (simp_all add: menu_lines_def del: upt_Suc)

lemma menu_lines_last15:
  "menu_lines (last15 versions) =
     map (\<lambda>k. menu_line k (versions ! (length versions - min (length versions) 15 + (k - 1))))
       [1 ..< Suc (min (length versions) 15)]"
  unfolding menu_lines_nth length_last15
proof (rule map_cong [OF refl])
  fix k
  assume "k \<in> set [1 ..< Suc (min (length versions) 15)]"
  then have "k - 1 < min (length versions) 15"
    by auto
  then show "menu_line k (last15 versions ! (k - 1)) =
      menu_line k (versions ! (length versions - min (length versions) 15 + (k - 1)))"
    by (simp only: last15_nth)
qed

text \<open>
  Claim C4. With \<open>N\<close> entries fetched, the menu has \<open>min N 15\<close> lines, numbered from
  1 and taken from the end of the list; a line that reads as the number \<open>k\<close> with
  \<open>1 \<le> k \<le> min N 15\<close> selects the entry of menu line \<open>k\<close>; a line that reads as
  0 or as \<open>min N 15 + 1\<close> changes nothing in the outcome, and the picker goes on with
  the next line. (With no entry at all the picker returns no selection before it
  reads anything.)
\<close>

theorem prompt_for_version_menu:
  assumes "list_available_versions sh = Inr versions"
  shows "snd (snd (prompt_for_version sh ins)) =
           map (\<lambda>k. menu_line k (versions ! (length versions - min (length versions) 15 + (k - 1))))
             [1 ..< Suc (min (length versions) 15)] \<and>
         (py_int (strip line) = Inr k \<and> 1 \<le> k \<and> k \<le> min (length versions) 15 \<longrightarrow>
            prompt_for_version sh (Line line # ins) =
              (Inr (Some (versions ! (length versions - min (length versions) 15 + (k - 1)))), ins,
               menu_lines (last15 versions))) \<and>
         (py_int (strip line) = Inr k \<and> (k = 0 \<or> k = min (length versions) 15 + 1) \<longrightarrow>
            fst (prompt_for_version sh (Line line # ins)) = fst (prompt_for_version sh ins) \<and>
            (versions \<noteq> [] \<longrightarrow>
               prompt_for_version sh (Line line # ins) = prompt_for_version sh ins))"
proof (cases "versions = []")
  case True
  then show ?thesis
    using assms by (simp add: prompt_for_version_empty)
next
  case False
  note loop = prompt_for_version_loop [OF assms False]
  have menu: "snd (snd (prompt_for_version sh ins)) =
           map (\<lambda>k. menu_line k (versions ! (length versions - min (length versions) 15 + (k - 1))))
             [1 ..< Suc (min (length versions) 15)]"
    by (simp add: loop menu_lines_last15)
  have pick: "prompt_for_version sh (Line line # ins) =
              (Inr (Some (versions ! (length versions - min (length versions) 15 + (k - 1)))), ins,
               menu_lines (last15 versions))"
    if "py_int (strip line) = Inr k" "1 \<le> k" "k \<le> min (length versions) 15"
  proof -
    have "choice_loop versions (last15 versions) (Line line # ins) =
            (Inr (Some (last15 versions ! (k - 1))), ins)"
      using that by (intro choice_loop_index) (simp_all add: length_last15)
    moreover have "last15 versions ! (k - 1) =
            versions ! (length versions - min (length versions) 15 + (k - 1))"
      using that by (intro last15_nth) linarith
    ultimately show ?thesis by (simp add: loop)
  qed
  have skip: "prompt_for_version sh (Line line # ins) = prompt_for_version sh ins"
    if "py_int (strip line) = Inr k" "k = 0 \<or> k = min (length versions) 15 + 1"
  proof -
    have "choice_loop versions (last15 versions) (Line line # ins) =
            choice_loop versions (last15 versions) ins"
      using that by (intro choice_loop_out_of_range [of line k]) (auto simp add: length_last15)
    then show ?thesis by (simp add: loop)
  qed
  show ?thesis
    using menu pick skip by simp
qed

theorem prompt_for_version_menu_witness:
  "snd (snd (prompt_for_version
      [([''pyenv'', ''install'', ''--list''], Exited 0 (''  3.11.9'' @ newline @ ''  3.12.4'' @ newline))]
      [Line ''q''])) = [''   1) 3.11.9'', ''   2) 3.12.4''] \<and>
   prompt_for_version
      [([''pyenv'', ''install'', ''--list''], Exited 0 (''  3.11.9'' @ newline @ ''  3.12.4'' @ newline))]
      [Line ''2'', Line ''q''] = (Inr (Some ''3.12.4''), [Line ''q''], [''   1) 3.11.9'', ''   2) 3.12.4'']) \<and>
   prompt_for_version
      [([''pyenv'', ''install'', ''--list''], Exited 0 (''  3.11.9'' @ newline @ ''  3.12.4'' @ newline))]
      [Line ''0'', Line ''3'', Line ''1'']
     = (Inr (Some ''3.11.9''), [], [''   1) 3.11.9'', ''   2) 3.12.4''])"
proof -
  let ?sh = "[([''pyenv'', ''install'', ''--list''],
               Exited 0 (''  3.11.9'' @ newline @ ''  3.12.4'' @ newline))]"
  have fetched: "list_available_versions ?sh = Inr [''3.11.9'', ''3.12.4'']"
    by code_simp
  have two: "py_int (strip ''2'') = Inr 2" and zero: "py_int (strip ''0'') = Inr 0"
    and three: "py_int (strip ''3'') = Inr 3" and one: "py_int (strip ''1'') = Inr 1"
    by code_simp+
  have lines: "menu_lines (last15 [''3.11.9'', ''3.12.4'']) = [''   1) 3.11.9'', ''   2) 3.12.4'']"
    by code_simp
  have shown: "map (\<lambda>k. menu_line k ([''3.11.9'', ''3.12.4''] ! (k - 1))) [1 ..< Suc 2]
      = [''   1) 3.11.9'', ''   2) 3.12.4'']"
    by code_simp
  show ?thesis
    using prompt_for_version_menu [OF fetched, of "[Line ''q'']" "''2''" 2]
      prompt_for_version_menu [OF fetched, of "[Line ''3'', Line ''1'']" "''0''" 0]
      prompt_for_version_menu [OF fetched, of "[Line ''1'']" "''3''" 3]
      prompt_for_version_menu [OF fetched, of "[]" "''1''" 1]
      two zero three one lines shown
    by simp
qed

text \<open>
  Claim C5 says that a version text outside the displayed slice is accepted only after
  a confirmation. The loop asks for the confirmation when the text is not in the full
  fetched list (line 452): with sixteen entries fetched, the first one is outside the
  menu of fifteen, and typing it selects it at once; the answer that follows is left
  unread.
\<close>

theorem prompt_for_version_listed_counterexample:
  "list_available_versions
     [([''pyenv'', ''install'', ''--list''], Exited 0
       (''3.0.0'' @ newline @ ''3.1.0'' @ newline @ ''3.2.0'' @ newline @
        ''3.3.0'' @ newline @ ''3.4.0'' @ newline @ ''3.5.0'' @ newline @
        ''3.6.0'' @ newline @ ''3.7.0'' @ newline @ ''3.8.0'' @ newline @
        ''3.9.0'' @ newline @ ''3.10.0'' @ newline @ ''3.11.0'' @ newline @
        ''3.12.0'' @ newline @ ''3.13.0'' @ newline @ ''3.14.0'' @ newline @
        ''3.15.0'' @ newline))] = Inr
      [''3.0.0'', ''3.1.0'', ''3.2.0'', ''3.3.0'', ''3.4.0'', ''3.5.0'', ''3.6.0'',
       ''3.7.0'', ''3.8.0'', ''3.9.0'', ''3.10.0'', ''3.11.0'', ''3.12.0'',
       ''3.13.0'', ''3.14.0'', ''3.15.0''] \<and>
   version_match ''3.0.0'' \<and>
   ''3.0.0'' \<notin> set (last15
      [''3.0.0'', ''3.1.0'', ''3.2.0'', ''3.3.0'', ''3.4.0'', ''3.5.0'', ''3.6.0'',
       ''3.7.0'', ''3.8.0'', ''3.9.0'', ''3.10.0'', ''3.11.0'', ''3.12.0'',
       ''3.13.0'', ''3.14.0'', ''3.15.0'']) \<and>
   fst (prompt_for_version
     [([''pyenv'', ''install'', ''--list''], Exited 0
       (''3.0.0'' @ newline @ ''3.1.0'' @ newline @ ''3.2.0'' @ newline @
        ''3.3.0'' @ newline @ ''3.4.0'' @ newline @ ''3.5.0'' @ newline @
        ''3.6.0'' @ newline @ ''3.7.0'' @ newline @ ''3.8.0'' @ newline @
        ''3.9.0'' @ newline @ ''3.10.0'' @ newline @ ''3.11.0'' @ newline @
        ''3.12.0'' @ newline @ ''3.13.0'' @ newline @ ''3.14.0'' @ newline @
        ''3.15.0'' @ newline))]
     [Line ''3.0.0'', Line ''n'', Line ''q'']) = Inr (Some ''3.0.0'') \<and>
   fst (snd (prompt_for_version
     [([''pyenv'', ''install'', ''--list''], Exited 0
       (''3.0.0'' @ newline @ ''3.1.0'' @ newline @ ''3.2.0'' @ newline @
        ''3.3.0'' @ newline @ ''3.4.0'' @ newline @ ''3.5.0'' @ newline @
        ''3.6.0'' @ newline @ ''3.7.0'' @ newline @ ''3.8.0'' @ newline @
        ''3.9.0'' @ newline @ ''3.10.0'' @ newline @ ''3.11.0'' @ newline @
        ''3.12.0'' @ newline @ ''3.13.0'' @ newline @ ''3.14.0'' @ newline @
        ''3.15.0'' @ newline))]
     [Line ''3.0.0'', Line ''n'', Line ''q''])) = [Line ''n'', Line ''q'']"
  by code_simp

text \<open>
  Claim C5, amended. With a non-empty fetched list, a line whose text matches the
  pattern and is absent from the full fetched list is accepted only after the
  confirmation: an empty answer, \<open>y\<close> or \<open>yes\<close> returns that text, and \<open>n\<close> or \<open>no\<close>
  makes the picker go on with the next line. A matching text that is anywhere in the
  fetched list, inside the menu or not, is returned without a confirmation.
\<close>

theorem prompt_for_version_literal:
  assumes "list_available_versions sh = Inr versions" and "versions \<noteq> []"
    and "version_match (strip line)"
  shows "(strip line \<notin> set versions \<and> lower (strip answer) \<in> {[], ''y'', ''yes''} \<longrightarrow>
            prompt_for_version sh (Line line # Line answer # ins) =
              (Inr (Some (strip line)), ins, menu_lines (last15 versions))) \<and>
         (strip line \<notin> set versions \<and> lower (strip answer) \<in> {''n'', ''no''} \<longrightarrow>
            prompt_for_version sh (Line line # Line answer # ins) = prompt_for_version sh ins) \<and>
         (strip line \<in> set versions \<longrightarrow>
            prompt_for_version sh (Line line # ins) =
              (Inr (Some (strip line)), ins, menu_lines (last15 versions)))"
proof -
  note loop = prompt_for_version_loop [OF assms(1,2)]
  have yes: "ask_yes_no (Some True) (Line answer # ins) = (Inr True, ins)"
    if "lower (strip answer) \<in> {[], ''y'', ''yes''}"
    using that by (auto simp add: Let_def)
  have no: "ask_yes_no (Some True) (Line answer # ins) = (Inr False, ins)"
    if "lower (strip answer) \<in> {''n'', ''no''}"
    using that by (auto simp add: Let_def)
  show ?thesis
    using assms(3) yes no
    by (auto simp add: loop choice_loop_listed choice_loop_unlisted
        simp del: choice_loop.simps ask_yes_no.simps)
qed

theorem prompt_for_version_literal_witness:
  "prompt_for_version
      [([''pyenv'', ''install'', ''--list''], Exited 0 (''  3.11.9'' @ newline @ ''  3.12.4'' @ newline))]
      [Line ''3.9.1'', Line ''y'', Line ''q''] =
        (Inr (Some ''3.9.1''), [Line ''q''], menu_lines (last15 [''3.11.9'', ''3.12.4''])) \<and>
   prompt_for_version
      [([''pyenv'', ''install'', ''--list''], Exited 0 (''  3.11.9'' @ newline @ ''  3.12.4'' @ newline))]
      [Line ''3.9.1'', Line ''no'', Line ''3.11.9''] =
        (Inr (Some ''3.11.9''), [], menu_lines (last15 [''3.11.9'', ''3.12.4'']))"
proof -
  let ?sh = "[([''pyenv'', ''install'', ''--list''],
               Exited 0 (''  3.11.9'' @ newline @ ''  3.12.4'' @ newline))]"
  have fetched: "list_available_versions ?sh = Inr [''3.11.9'', ''3.12.4'']"
    by code_simp
  have some: "[''3.11.9'', ''3.12.4''] \<noteq> []"
    by simp
  have typed: "version_match (strip ''3.9.1'')" and listed: "version_match (strip ''3.11.9'')"
    by code_simp+
  have facts: "strip ''3.9.1'' = ''3.9.1''" "strip ''3.11.9'' = ''3.11.9''"
    "lower (strip ''y'') = ''y''" "lower (strip ''no'') = ''no''"
    by code_simp+
  show ?thesis
    using prompt_for_version_literal [OF fetched some typed, of "''y''" "[Line ''q'']"]
      prompt_for_version_literal [OF fetched some typed, of "''no''" "[Line ''3.11.9'']"]
      prompt_for_version_literal [OF fetched some listed, of _ "[]"]
      facts
    by simp
qed

text \<open>
  Claim C10. Whatever is typed and whatever was fetched, a selection that
  \<open>prompt_for_version\<close> returns matches the pattern \<open>\d+\.\d+\.\d+\<close>.
\<close>

theorem prompt_for_version_returns_version:
  assumes "fst (prompt_for_version sh ins) = Inr (Some v)"
  shows "version_match v"
  using assms prompt_for_version_selected [of sh ins v]
  by (cases "prompt_for_version sh ins") simp

theorem prompt_for_version_returns_version_witness:
  "fst (prompt_for_version
      [([''pyenv'', ''install'', ''--list''], Exited 0 (''  3.11.9'' @ newline @ ''  3.12.4'' @ newline))]
      [Line ''2'']) = Inr (Some ''3.12.4'') \<and> version_match ''3.12.4'' \<and>
   fst (prompt_for_version
      [([''pyenv'', ''install'', ''--list''], Exited 0 (''  3.11.9'' @ newline @ ''  3.12.4'' @ newline))]
      [Line ''3.9.1'', Line ''yes'']) = Inr (Some ''3.9.1'') \<and> version_match ''3.9.1''"
proof -
  let ?sh = "[([''pyenv'', ''install'', ''--list''],
               Exited 0 (''  3.11.9'' @ newline @ ''  3.12.4'' @ newline))]"
  have menu: "fst (prompt_for_version ?sh [Line ''2'']) = Inr (Some ''3.12.4'')"
    by code_simp
  have typed: "fst (prompt_for_version ?sh [Line ''3.9.1'', Line ''yes'']) = Inr (Some ''3.9.1'')"
    by code_simp
  show ?thesis
    using menu typed prompt_for_version_returns_version [OF menu]
      prompt_for_version_returns_version [OF typed]
    by simp
qed

section \<open>Properties of version installation and of the main flow\<close>

text \<open>
  Claim C8. A version that is a line of the bare listing of installed versions makes
  \<open>ensure_version_installed\<close> return success after the listing command alone; the
  install command is run only for a version that the listing does not have (the
  listing being empty when its command fails).
\<close>

theorem ensure_version_installed_short_circuit:
  "(run_cmd True (run sh [''pyenv'', ''versions'', ''--bare'']) = Inr out \<and>
    version \<in> set (filter (\<lambda>line. line \<noteq> []) (map strip (splitlines out))) \<longrightarrow>
      ensure_version_installed version sh = (Inr True, [[''pyenv'', ''versions'', ''--bare'']])) \<and>
   ([''pyenv'', ''install'', version] \<in> set (snd (ensure_version_installed version sh)) \<longrightarrow>
      (\<forall>listed. run_cmd True (run sh [''pyenv'', ''versions'', ''--bare'']) = Inr listed \<longrightarrow>
         version \<notin> set (filter (\<lambda>line. line \<noteq> []) (map strip (splitlines listed)))))"
  by (auto simp add: ensure_version_installed_def Let_def split: sum.splits if_splits)

theorem ensure_version_installed_short_circuit_witness:
  "ensure_version_installed ''3.12.4''
     [([''pyenv'', ''versions'', ''--bare''], Exited 0 (''3.11.9'' @ newline @ ''3.12.4'' @ newline)),
      ([''pyenv'', ''install'', ''3.12.4''], Exited 1 [])]
     = (Inr True, [[''pyenv'', ''versions'', ''--bare'']]) \<and>
   ''3.12.5'' \<notin> set (filter (\<lambda>line. line \<noteq> [])
      (map strip (splitlines (''3.11.9'' @ newline @ ''3.12.4'' @ newline))))"
proof -
  let ?sh = "[([''pyenv'', ''versions'', ''--bare''], Exited 0 (''3.11.9'' @ newline @ ''3.12.4'' @ newline)),
      ([''pyenv'', ''install'', ''3.12.4''], Exited 1 [])]"
  let ?sh' = "[([''pyenv'', ''versions'', ''--bare''], Exited 0 (''3.11.9'' @ newline @ ''3.12.4'' @ newline)),
      ([''pyenv'', ''install'', ''3.12.5''], Exited 0 [])]"
  have listing: "run_cmd True (run ?sh [''pyenv'', ''versions'', ''--bare''])
      = Inr (''3.11.9'' @ newline @ ''3.12.4'' @ newline)"
    by code_simp
  have listing': "run_cmd True (run ?sh' [''pyenv'', ''versions'', ''--bare''])
      = Inr (''3.11.9'' @ newline @ ''3.12.4'' @ newline)"
    by code_simp
  have present: "''3.12.4'' \<in> set (filter (\<lambda>line. line \<noteq> [])
      (map strip (splitlines (''3.11.9'' @ newline @ ''3.12.4'' @ newline))))"
    by code_simp
  have installing: "[''pyenv'', ''install'', ''3.12.5''] \<in> set (snd (ensure_version_installed ''3.12.5'' ?sh'))"
    by code_simp
  show ?thesis
    using ensure_version_installed_short_circuit [of ?sh "''3.11.9'' @ newline @ ''3.12.4'' @ newline" "''3.12.4''"]
      ensure_version_installed_short_circuit [of ?sh' _ "''3.12.5''"]
      listing listing' present installing
    by blast
qed



section \<open>Properties of the environment mapping\<close>





lemma dict_copy_old: "j < length st \<Longrightarrow> snd (dict_copy d st) ! j = st ! j"
  by (simp add: dict_copy_def nth_append)

lemma pyenv_root_of_copy:
  "environ < length st \<Longrightarrow> pyenv_root_of fs (snd (dict_copy d st)) = pyenv_root_of fs st"
  by (simp add: pyenv_root_of_def get_item_def dict_copy_def nth_append)













section \<open>Properties of the shell startup file\<close>

lemma startswith_before_break:
  "n \<notin> set m \<Longrightarrow> startswith (u @ n # t) m = startswith u m"
proof (induction u m rule: startswith.induct)
  case (1 s)
  show ?case by simp
next
  case (2 p ps)
  then show ?case by auto
next
  case (3 c cs p ps)
  then show ?case by simp
qed

lemma occurrences_before_break:
  assumes "n \<notin> set m" and "m \<noteq> []"
  shows "occurrences (u @ n # t) m = occurrences u m + occurrences (n # t) m"
proof (induction u)
  case Nil
  show ?case using assms(2) by simp
next
  case (Cons x u)
  have "startswith ((x # u) @ n # t) m = startswith (x # u) m"
    using assms(1) by (rule startswith_before_break)
  then show ?case
    using Cons.IH by simp
qed

lemma contains_occurrences: "contains s m \<longleftrightarrow> 0 < occurrences s m"
  by (induction s) auto

lemma contains_append_right: "contains t m \<Longrightarrow> contains (u @ t) m"
  by (induction u) auto

lemma file_at_write_file: "file_at (write_file name f h) name' = (if name' = name then f else file_at h name')"
  by (induction h) (auto simp add: file_at_def)

text \<open>What is appended, with and without the newline that closes the last line.\<close>

lemma appended_once:
  "occurrences (newline @ strip_chars newline pyenv_snippet @ newline) ''pyenv init'' = 1"
  "occurrences (newline @ newline @ strip_chars newline pyenv_snippet @ newline) ''pyenv init'' = 1"
  by code_simp+

lemma appended_marker:
  "contains (newline @ strip_chars newline pyenv_snippet @ newline) ''pyenv init''"
  by (simp add: contains_occurrences appended_once del: occurrences.simps)

lemma appended_text:
  assumes "\<not> contains c ''pyenv init''"
  defines "c' \<equiv> c @ (if endswith c newline then [] else newline)
                  @ newline @ strip_chars newline pyenv_snippet @ newline"
  shows "occurrences c' ''pyenv init'' = 1" and "contains c' ''pyenv init''"
proof -
  have none: "occurrences c ''pyenv init'' = 0"
    using assms(1) by (simp add: contains_occurrences)
  have nl: "CHR 0x0A \<notin> set ''pyenv init''" and ne: "''pyenv init'' \<noteq> []"
    by simp_all
  have split: "occurrences (c @ CHR 0x0A # t) ''pyenv init''
      = occurrences c ''pyenv init'' + occurrences (CHR 0x0A # t) ''pyenv init''" for t
    using nl ne by (rule occurrences_before_break)
  show "occurrences c' ''pyenv init'' = 1"
    using split [of "strip_chars newline pyenv_snippet @ newline"]
      split [of "newline @ strip_chars newline pyenv_snippet @ newline"]
      appended_once none
    by (simp add: c'_def newline_def del: occurrences.simps)
  then show "contains c' ''pyenv init''"
    by (simp add: contains_occurrences)
qed

text \<open>
  Claim C7. Appending the initialisation snippet is idempotent: a second run leaves
  the home directory as the first run left it, and a startup file that has the marker
  \<open>pyenv init\<close> is not touched. Starting from a startup file without the marker
  (or from none), the file has the marker exactly once after two runs when it can be
  opened for appending, and is unchanged otherwise.
\<close>

theorem append_to_shell_rc_idempotent:
  "append_twice shell writable pyenv_snippet h
     = append_to_shell_rc_if_missing shell writable pyenv_snippet h \<and>
   (file_at h (rc_name shell) = Contents c \<and> contains c ''pyenv init'' \<longrightarrow>
      append_to_shell_rc_if_missing shell writable pyenv_snippet h = Inr h) \<and>
   ((file_at h (rc_name shell) = Contents c \<or> file_at h (rc_name shell) = Missing \<and> c = []) \<and>
    \<not> contains c ''pyenv init'' \<longrightarrow>
      (\<exists>h'. append_twice shell writable pyenv_snippet h = Inr h' \<and>
         (if writable
          then \<exists>c'. file_at h' (rc_name shell) = Contents c' \<and> occurrences c' ''pyenv init'' = 1
          else h' = h)))"
proof -
  let ?rc = "rc_name shell"
  let ?run = "append_to_shell_rc_if_missing shell writable pyenv_snippet"
  let ?new = "\<lambda>c. c @ (if endswith c newline then [] else newline)
                  @ newline @ strip_chars newline pyenv_snippet @ newline"
  have kept: "?run h = Inr h"
    if "file_at h ?rc = Contents c" "contains c ''pyenv init''" for h c
    using that by (simp add: append_to_shell_rc_if_missing_def is_file_def read_text_def)
  have added: "?run h = Inr (if writable then write_file ?rc (Contents (?new c)) h else h)"
    if "file_at h ?rc = Contents c \<or> file_at h ?rc = Missing \<and> c = []"
      "\<not> contains c ''pyenv init''" for c
    using that by (auto simp add: append_to_shell_rc_if_missing_def is_file_def read_text_def)
  have hidden: "?run h = Inr h" if "file_at h ?rc = Unreadable"
    using that by (simp add: append_to_shell_rc_if_missing_def is_file_def read_text_def)
  have broken: "?run h = Inl UnicodeDecodeError" if "file_at h ?rc = Undecodable"
    using that by (simp add: append_to_shell_rc_if_missing_def is_file_def read_text_def)
  have again: "?run (write_file ?rc (Contents (?new c)) h) = Inr (write_file ?rc (Contents (?new c)) h)"
    if "\<not> contains c ''pyenv init''" for c
    using appended_text(2) [OF that] by (intro kept) (simp_all add: file_at_write_file)
  have fresh: "append_twice shell writable pyenv_snippet h = ?run h \<and>
      (\<exists>h'. append_twice shell writable pyenv_snippet h = Inr h' \<and>
         (if writable
          then \<exists>c'. file_at h' ?rc = Contents c' \<and> occurrences c' ''pyenv init'' = 1
          else h' = h))"
    if start: "file_at h ?rc = Contents c \<or> file_at h ?rc = Missing \<and> c = []"
      and free: "\<not> contains c ''pyenv init''" for c
  proof (cases writable)
    case True
    then show ?thesis
      using added [OF start free] again [OF free] appended_text(1) [OF free]
      by (simp add: append_twice_def file_at_write_file)
  next
    case False
    then show ?thesis
      using added [OF start free] by (simp add: append_twice_def)
  qed
  have twice: "append_twice shell writable pyenv_snippet h = ?run h"
  proof (cases "file_at h ?rc")
    case Missing
    have "\<not> contains [] ''pyenv init''" by simp
    then show ?thesis using fresh [of "[]"] Missing by blast
  next
    case Unreadable
    then show ?thesis using hidden by (simp add: append_twice_def)
  next
    case Undecodable
    then show ?thesis using broken by (simp add: append_twice_def)
  next
    case (Contents body)
    then show ?thesis
      using fresh [of body] kept [of h body]
      by (cases "contains body ''pyenv init''") (simp_all add: append_twice_def)
  qed
  show ?thesis
    using twice kept [of h c] fresh [of c] by blast
qed

theorem append_to_shell_rc_idempotent_witness:
  "append_to_shell_rc_if_missing ''/bin/bash'' True pyenv_snippet
     [(''.bashrc'', Contents (''eval '' @ quote @ ''$(pyenv init -)'' @ quote @ newline))]
     = Inr [(''.bashrc'', Contents (''eval '' @ quote @ ''$(pyenv init -)'' @ quote @ newline))] \<and>
   (\<exists>h'. append_twice ''/bin/bash'' True pyenv_snippet [(''.bashrc'', Contents ''alias ll=ls'')] = Inr h' \<and>
      (\<exists>c'. file_at h' (rc_name ''/bin/bash'') = Contents c' \<and> occurrences c' ''pyenv init'' = 1))"
proof -
  let ?had = "[(''.bashrc'', Contents (''eval '' @ quote @ ''$(pyenv init -)'' @ quote @ newline))]"
  let ?plain = "[(''.bashrc'', Contents ''alias ll=ls'')]"
  have had: "file_at ?had (rc_name ''/bin/bash'')
      = Contents (''eval '' @ quote @ ''$(pyenv init -)'' @ quote @ newline)"
    "contains (''eval '' @ quote @ ''$(pyenv init -)'' @ quote @ newline) ''pyenv init''"
    by code_simp+
  have plain: "file_at ?plain (rc_name ''/bin/bash'') = Contents ''alias ll=ls''"
    "\<not> contains ''alias ll=ls'' ''pyenv init''"
    by code_simp+
  have kept: "append_to_shell_rc_if_missing ''/bin/bash'' True pyenv_snippet ?had = Inr ?had"
    using append_to_shell_rc_idempotent [of "''/bin/bash''" True ?had
        "''eval '' @ quote @ ''$(pyenv init -)'' @ quote @ newline"] had
    by blast
  have "\<exists>h'. append_twice ''/bin/bash'' True pyenv_snippet ?plain = Inr h' \<and>
      (if True
       then \<exists>c'. file_at h' (rc_name ''/bin/bash'') = Contents c' \<and> occurrences c' ''pyenv init'' = 1
       else h' = ?plain)"
    using append_to_shell_rc_idempotent [of "''/bin/bash''" True ?plain "''alias ll=ls''"] plain
    by blast
  then have once: "\<exists>h'. append_twice ''/bin/bash'' True pyenv_snippet ?plain = Inr h' \<and>
      (\<exists>c'. file_at h' (rc_name ''/bin/bash'') = Contents c' \<and> occurrences c' ''pyenv init'' = 1)"
    unfolding if_True .
  show ?thesis
    using kept once by (rule conjI)
qed

end
